theory Spec2Isabelle
  imports Main "HOL-Library.Sublist"
begin

section \<open>The token detection controller of \<open>app/scripts/controllers/detect-tokens.js\<close>\<close>

text \<open>
  The controller is a JavaScript class. Its fields are a record, every call it makes
  on a collaborator (the balance oracle, the token store, the metrics hook, the timer,
  the logger) is an entry of an effect list, in the order the calls are made, and an
  exception or a rejected promise is a value of \<open>js_error\<close>.
\<close>

subsection \<open>JavaScript values\<close>

datatype js_error = TypeError | Rejection

text \<open>
  \<open>undefined\<close> is \<open>None\<close>. A string is truthy when it is defined and not empty,
  a boolean when it is \<open>true\<close>; an object is always truthy.
\<close>

definition truthy_string :: "string option \<Rightarrow> bool" where
  "truthy_string v = (case v of None \<Rightarrow> False | Some str \<Rightarrow> str \<noteq> [])"

definition truthy_bool :: "bool option \<Rightarrow> bool" where
  "truthy_bool v = (case v of None \<Rightarrow> False | Some b \<Rightarrow> b)"

definition truthy_object :: "'a option \<Rightarrow> bool" where
  "truthy_object v = (case v of None \<Rightarrow> False | Some obj \<Rightarrow> True)"

text \<open>
  \<open>Array.prototype.slice(start, end)\<close>: a negative index counts from the end, both
  indices are clamped to the length, and an end before the start gives the empty array.
\<close>

definition js_slice :: "int \<Rightarrow> int \<Rightarrow> 'a list \<Rightarrow> 'a list" where
  "js_slice start fin xs =
     (let len = int (length xs);
          k = (if start < 0 then max (len + start) 0 else min start len);
          final = (if fin < 0 then max (len + fin) 0 else min fin len)
      in take (nat (final - k)) (drop (nat k) xs))"

text \<open>
  Modelled from the spec: \<open>isEqualCaseInsensitive\<close> of
  \<open>shared/modules/string-utils\<close> is imported by the controller and is not among the
  sources. The spec says that address comparison is case-insensitive throughout: two
  strings are equal when their lower-case forms are. Addresses are ASCII, so lower-casing
  moves \<open>A\<close> to \<open>Z\<close> onto \<open>a\<close> to \<open>z\<close> and leaves every other character alone.
\<close>

definition toLowerCase_char :: "char \<Rightarrow> char" where
  "toLowerCase_char c =
     (case map_of (zip ''ABCDEFGHIJKLMNOPQRSTUVWXYZ'' ''abcdefghijklmnopqrstuvwxyz'') c of
        None \<Rightarrow> c
      | Some l \<Rightarrow> l)"

definition toLowerCase :: "string \<Rightarrow> string" where
  "toLowerCase str = map toLowerCase_char str"

definition isEqualCaseInsensitive :: "string \<Rightarrow> string \<Rightarrow> bool" where
  "isEqualCaseInsensitive value1 value2 \<longleftrightarrow> toLowerCase value1 = toLowerCase value2"

subsection \<open>Data\<close>

text \<open>An entry of the token list (the catalog), keyed by its address.\<close>

record token =
  address :: string
  symbol :: string
  decimals :: nat
  iconUrl :: string
  aggregators :: "string list"

text \<open>
  The token list is a JavaScript object; \<open>for ... in\<close> and \<open>tokenList[key]\<close> see it
  as the list of its entries in iteration order, looked up by key.
\<close>

type_synonym catalog = "(string \<times> token) list"

text \<open>The object that line 143 builds for a token with a balance.\<close>

record detected_token =
  address :: string
  symbol :: string
  decimals :: nat
  image_src :: string
  aggregators :: "string list"

record network =
  chainId :: string
  provider :: nat

text \<open>
  The constants the event of line 153 is built from are imported from files that are
  not among the sources; each is kept as the name the controller refers to it by.
\<close>

datatype label =
    EVENT_NAMES_TOKEN_DETECTED
  | EVENT_CATEGORIES_WALLET
  | TOKEN_STANDARDS_ERC20
  | ASSET_TYPES_TOKEN

record metametrics_event =
  event :: label
  category :: label
  properties_tokens :: "string list"
  properties_token_standard :: label
  properties_asset_type :: label

text \<open>
  The calls on the outside world. A timer handle is named by the period it was armed
  with: the controller holds at most one.
\<close>

datatype effect =
    SetProvider nat
  | OracleCall "string option" "string list"
  | Warn string
  | Track metametrics_event
  | AddDetected "detected_token list"
  | ClearInterval nat
  | SetInterval nat

text \<open>
  What the collaborators answer. The oracle \<open>getBalancesInSingleCall\<close> is asked with
  the number of the call within the run, the account and the slice; it rejects, or
  resolves with nothing or with an object whose keys are the addresses with a balance.
  \<open>addDetectedTokens\<close> resolves (\<open>True\<close>) or rejects.
\<close>

datatype balances = Rejected | Resolved "string list option"

record env =
  isTokenDetectionEnabledForNetwork :: "string \<Rightarrow> bool"
  getBalancesInSingleCall :: "nat \<Rightarrow> string option \<Rightarrow> string list \<Rightarrow> balances"
  addDetectedTokens :: "detected_token list \<Rightarrow> bool"

text \<open>
  The fields of the class. A collaborator that is only called is a flag (is the handle
  defined); \<open>_network\<close> and \<open>_tokenList\<close> carry what the controller reads through them
  (\<open>web3\<close> is created by the setter of \<open>network\<close> and by nothing else, so it is
  defined exactly when \<open>_network\<close> is). \<open>isOpen\<close> is written from outside the class.
\<close>

record controller =
  assetsContractController :: bool
  tokensController :: bool
  preferences :: bool
  priv_network :: "network option"
  priv_keyringMemStore :: bool
  priv_tokenList :: "catalog option"
  selectedAddress :: "string option"
  useTokenDetection :: "bool option"
  tokenAddresses :: "string list option"
  hiddenTokens :: "string list option"
  detectedTokens :: "detected_token list option"
  priv_trackMetaMetricsEvent :: bool
  priv_handle :: "nat option"
  isOpen :: bool
  isUnlocked :: "bool option"

subsection \<open>Constants\<close>

text \<open>
  Modelled from the spec: \<open>MINUTE\<close> of \<open>shared/constants/time\<close> is not among the
  sources. The spec gives the default interval as three minutes; \<open>setInterval\<close> counts
  milliseconds.
\<close>

definition MINUTE :: nat where
  "MINUTE = 60000"

definition DEFAULT_INTERVAL :: nat where
  "DEFAULT_INTERVAL = MINUTE * 3"

definition fetch_failed :: string where
  "fetch_failed = ''MetaMask - DetectTokensController single call balance fetch failed''"

subsection \<open>\<open>isActive\<close> (lines 241-243)\<close>

definition isActive :: "controller \<Rightarrow> bool" where
  "isActive s \<longleftrightarrow> isOpen s \<and> truthy_bool (isUnlocked s)"

subsection \<open>\<open>detectNewTokens\<close> (lines 81-166)\<close>

text \<open>
  The condition of lines 99-109 for one key of the token list. \<open>find\<close> returns the
  element found, and \<open>!\<close> tests its truthiness. Reading a mirror that is
  \<open>undefined\<close> throws; \<open>&&\<close> reads the next mirror only when the test before passed.
\<close>

definition is_unknown :: "controller \<Rightarrow> string \<Rightarrow> js_error + bool" where
  "is_unknown s tokenAddress =
     (case tokenAddresses s of
        None \<Rightarrow> Inl TypeError
      | Some held \<Rightarrow>
          if truthy_string (find (\<lambda>address. isEqualCaseInsensitive address tokenAddress) held)
          then Inr False
          else (case hiddenTokens s of
              None \<Rightarrow> Inl TypeError
            | Some hidden \<Rightarrow>
                if truthy_string
                    (find (\<lambda>address. isEqualCaseInsensitive address tokenAddress) hidden)
                then Inr False
                else (case detectedTokens s of
                    None \<Rightarrow> Inl TypeError
                  | Some detected \<Rightarrow>
                      Inr (\<not> truthy_object
                        (find (\<lambda>d. isEqualCaseInsensitive (detected_token.address d) tokenAddress)
                          detected)))))"

text \<open>The loop of lines 98-112 over the keys, pushing onto \<open>tokensToDetect\<close>.\<close>

fun for_tokenAddress :: "controller \<Rightarrow> string list \<Rightarrow> string list \<Rightarrow> js_error + string list" where
  "for_tokenAddress s [] tokensToDetect = Inr tokensToDetect"
| "for_tokenAddress s (tokenAddress # keys) tokensToDetect =
     (case is_unknown s tokenAddress of
        Inl e \<Rightarrow> Inl e
      | Inr push \<Rightarrow>
          for_tokenAddress s keys
            (if push then tokensToDetect @ [tokenAddress] else tokensToDetect))"

text \<open>Lines 113-116.\<close>

definition sliceOfTokensToDetect :: "string list \<Rightarrow> string list list" where
  "sliceOfTokensToDetect tokensToDetect =
     [js_slice 0 1000 tokensToDetect,
      js_slice 1000 (int (length tokensToDetect) - 1) tokensToDetect]"

text \<open>
  The loop of lines 136-150 over the keys of the oracle's result. Destructuring
  \<open>tokenList[nonZeroTokenAddress]\<close> throws when the key is not in the token list.
\<close>

fun for_nonZeroTokenAddress ::
  "catalog \<Rightarrow> string list \<Rightarrow> string list \<times> detected_token list
     \<Rightarrow> js_error + (string list \<times> detected_token list)" where
  "for_nonZeroTokenAddress tokenList [] acc = Inr acc"
| "for_nonZeroTokenAddress tokenList (nonZeroTokenAddress # keys)
       (eventTokensDetails, tokensWithBalance) =
     (case map_of tokenList nonZeroTokenAddress of
        None \<Rightarrow> Inl TypeError
      | Some t \<Rightarrow>
          for_nonZeroTokenAddress tokenList keys
            (eventTokensDetails @ [token.symbol t @ '' - '' @ token.address t],
             tokensWithBalance @
               [\<lparr>address = token.address t, symbol = token.symbol t,
                 decimals = token.decimals t, image_src = iconUrl t,
                 aggregators = token.aggregators t\<rparr>]))"

definition token_detected :: "string list \<Rightarrow> metametrics_event" where
  "token_detected eventTokensDetails =
     \<lparr>event = EVENT_NAMES_TOKEN_DETECTED, category = EVENT_CATEGORIES_WALLET,
      properties_tokens = eventTokensDetails,
      properties_token_standard = TOKEN_STANDARDS_ERC20,
      properties_asset_type = ASSET_TYPES_TOKEN\<rparr>"

text \<open>
  Lines 132-164, for the result of one slice: the effects, and the error that ended
  the run if there was one. Calling a hook or a store that is \<open>undefined\<close> throws.
\<close>

definition handle_result ::
  "env \<Rightarrow> controller \<Rightarrow> catalog \<Rightarrow> string list option \<Rightarrow> effect list \<times> js_error option" where
  "handle_result env s tokenList result =
     (case result of
        None \<Rightarrow> ([], None)
      | Some nonZeroTokenAddresses \<Rightarrow>
          (case for_nonZeroTokenAddress tokenList nonZeroTokenAddresses ([], []) of
             Inl e \<Rightarrow> ([], Some e)
           | Inr (eventTokensDetails, tokensWithBalance) \<Rightarrow>
               if length tokensWithBalance > 0 then
                 if \<not> priv_trackMetaMetricsEvent s then ([], Some TypeError)
                 else if \<not> tokensController s
                   then ([Track (token_detected eventTokensDetails)], Some TypeError)
                 else ([Track (token_detected eventTokensDetails),
                        AddDetected tokensWithBalance],
                       if addDetectedTokens env tokensWithBalance then None
                       else Some Rejection)
               else ([], None)))"

text \<open>
  The loop of lines 117-165 over the slices; \<open>i\<close> counts the oracle calls. Whatever is
  thrown inside \<open>try\<close> (a rejection, or the call on a controller that is \<open>null\<close>) is
  caught: a warning is logged and the run returns.
\<close>

fun for_tokensSlice ::
  "env \<Rightarrow> controller \<Rightarrow> catalog \<Rightarrow> nat \<Rightarrow> string list list \<Rightarrow> effect list \<times> js_error option" where
  "for_tokensSlice env s tokenList i [] = ([], None)"
| "for_tokensSlice env s tokenList i (tokensSlice # slices) =
     (if \<not> assetsContractController s then ([Warn fetch_failed], None)
      else (case getBalancesInSingleCall env i (selectedAddress s) tokensSlice of
          Rejected \<Rightarrow> ([OracleCall (selectedAddress s) tokensSlice, Warn fetch_failed], None)
        | Resolved result \<Rightarrow>
            (case handle_result env s tokenList result of
               (es, Some e) \<Rightarrow> (OracleCall (selectedAddress s) tokensSlice # es, Some e)
             | (es, None) \<Rightarrow>
                 (case for_tokensSlice env s tokenList (Suc i) slices of
                    (es', r) \<Rightarrow> (OracleCall (selectedAddress s) tokensSlice # es @ es', r)))))"

text \<open>
  The whole method. It assigns to no field of the controller, so it yields its effects
  and the error it was rejected with, if any. The method is asynchronous: it is
  suspended at each oracle call and at each store write. A run is taken as a whole: no
  callback of a subscription changes the controller while the run is suspended.
\<close>

definition detectNewTokens :: "env \<Rightarrow> controller \<Rightarrow> effect list \<times> js_error option" where
  "detectNewTokens env s =
     (if \<not> isActive s then ([], None)
      else if \<not> truthy_bool (useTokenDetection s) then ([], None)
      else (case priv_network s of
          None \<Rightarrow> ([], Some TypeError)
        | Some net \<Rightarrow>
            if \<not> isTokenDetectionEnabledForNetwork env (chainId net) then ([], None)
            else (case priv_tokenList s of
                None \<Rightarrow> ([], Some TypeError)
              | Some tokenList \<Rightarrow>
                  (case for_tokenAddress s (map fst tokenList) [] of
                     Inl e \<Rightarrow> ([SetProvider (provider net)], Some e)
                   | Inr tokensToDetect \<Rightarrow>
                       (case for_tokensSlice env s tokenList 0
                               (sliceOfTokensToDetect tokensToDetect) of
                          (es, r) \<Rightarrow> (SetProvider (provider net) # es, r))))))"

subsection \<open>The setter of \<open>interval\<close> (lines 185-193) and \<open>restartTokenDetection\<close> (lines 173-179)\<close>

definition set_interval :: "nat \<Rightarrow> controller \<Rightarrow> controller \<times> effect list" where
  "set_interval interval s =
     (let cleared = (case priv_handle s of None \<Rightarrow> [] | Some h \<Rightarrow> [ClearInterval h])
      in if interval = 0 then (s, cleared)
         else (s\<lparr>priv_handle := Some interval\<rparr>, cleared @ [SetInterval interval]))"

text \<open>
  \<open>detectNewTokens\<close> is called and not awaited: what it is rejected with is dropped,
  and the run goes as far as its first oracle call before the setter of \<open>interval\<close>
  is reached and finishes after it. The list gives the effects of the run, in their
  order, and then those of the setter; it does not keep how the two interleave.
\<close>

definition restartTokenDetection :: "env \<Rightarrow> controller \<Rightarrow> controller \<times> effect list" where
  "restartTokenDetection env s =
     (if \<not> (isActive s \<and> truthy_string (selectedAddress s)) then (s, [])
      else (case set_interval DEFAULT_INTERVAL s of
          (s', timer) \<Rightarrow> (s', fst (detectNewTokens env s) @ timer)))"

subsection \<open>The constructor (lines 31-76) and its subscriptions\<close>

record preferences_state =
  state_selectedAddress :: "string option"
  state_useTokenDetection :: "bool option"

record tokens_state =
  state_tokens :: "detected_token list"
  state_ignoredTokens :: "string list"
  state_detectedTokens :: "detected_token list"

text \<open>
  The argument of the constructor: a collaborator that is left out is \<open>None\<close> or
  \<open>False\<close>, and \<open>interval\<close> that is left out takes the default.
\<close>

record config =
  config_interval :: "nat option"
  config_preferences :: "preferences_state option"
  config_network :: "network option"
  config_keyringMemStore :: bool
  config_tokenList :: "catalog option"
  config_tokensController :: "tokens_state option"
  config_assetsContractController :: bool
  config_trackMetaMetricsEvent :: bool

text \<open>
  The fields are assigned in the order of lines 41-55; the setter of \<open>interval\<close> runs
  on a controller that has no handle yet. Optional chaining leaves a mirror
  \<open>undefined\<close> when its collaborator is, and the setters of \<open>network\<close>,
  \<open>keyringMemStore\<close> and \<open>tokenList\<close> return at once on a falsy argument. No line of
  the constructor throws.
\<close>

definition constructor :: "config \<Rightarrow> controller \<times> effect list" where
  "constructor cfg =
     set_interval (case config_interval cfg of None \<Rightarrow> DEFAULT_INTERVAL | Some i \<Rightarrow> i)
       \<lparr>assetsContractController = config_assetsContractController cfg,
        tokensController = (config_tokensController cfg \<noteq> None),
        preferences = (config_preferences cfg \<noteq> None),
        priv_network = config_network cfg,
        priv_keyringMemStore = config_keyringMemStore cfg,
        priv_tokenList = config_tokenList cfg,
        selectedAddress =
          (case config_preferences cfg of None \<Rightarrow> None | Some p \<Rightarrow> state_selectedAddress p),
        useTokenDetection =
          (case config_preferences cfg of None \<Rightarrow> None | Some p \<Rightarrow> state_useTokenDetection p),
        tokenAddresses =
          (case config_tokensController cfg of
             None \<Rightarrow> None
           | Some st \<Rightarrow> Some (map detected_token.address (state_tokens st))),
        hiddenTokens =
          (case config_tokensController cfg of
             None \<Rightarrow> None
           | Some st \<Rightarrow> Some (state_ignoredTokens st)),
        detectedTokens =
          (case config_tokensController cfg of
             None \<Rightarrow> None
           | Some st \<Rightarrow> Some (state_detectedTokens st)),
        priv_trackMetaMetricsEvent = config_trackMetaMetricsEvent cfg,
        priv_handle = None,
        isOpen = False,
        isUnlocked = None\<rparr>"

text \<open>The callback of lines 57-66, called with the new state of the preferences.\<close>

definition on_preferences :: "env \<Rightarrow> preferences_state \<Rightarrow> controller \<Rightarrow> controller \<times> effect list" where
  "on_preferences env p s =
     (if selectedAddress s \<noteq> state_selectedAddress p
         \<or> useTokenDetection s \<noteq> state_useTokenDetection p
      then restartTokenDetection env
             (s\<lparr>selectedAddress := state_selectedAddress p,
                useTokenDetection := state_useTokenDetection p\<rparr>)
      else (s, []))"

text \<open>The callback of lines 67-75, called with the new state of the token store.\<close>

definition on_tokens :: "tokens_state \<Rightarrow> controller \<Rightarrow> controller" where
  "on_tokens st s =
     s\<lparr>tokenAddresses := Some (map detected_token.address (state_tokens st)),
       hiddenTokens := Some (state_ignoredTokens st),
       detectedTokens := Some (state_detectedTokens st)\<rparr>"

text \<open>The callback of lines 216-223, called with the new \<open>isUnlocked\<close>.\<close>

definition on_keyring :: "env \<Rightarrow> bool option \<Rightarrow> controller \<Rightarrow> controller \<times> effect list" where
  "on_keyring env unlocked s =
     (if isUnlocked s \<noteq> unlocked then
        (if truthy_bool unlocked then restartTokenDetection env (s\<lparr>isUnlocked := unlocked\<rparr>)
         else (s\<lparr>isUnlocked := unlocked\<rparr>, []))
      else (s, []))"

subsection \<open>What a run did, read off its effects\<close>

text \<open>The slices the oracle was asked about, in the order of the calls.\<close>

fun oracle_batches :: "effect list \<Rightarrow> string list list" where
  "oracle_batches [] = []"
| "oracle_batches (OracleCall account batch # es) = batch # oracle_batches es"
| "oracle_batches (e # es) = oracle_batches es"

text \<open>The tokens handed to \<open>addDetectedTokens\<close>, call after call.\<close>

fun store_writes :: "effect list \<Rightarrow> detected_token list" where
  "store_writes [] = []"
| "store_writes (AddDetected ds # es) = ds @ store_writes es"
| "store_writes (e # es) = store_writes es"

text \<open>
  An address is absent from the three known sets when no held address, no hidden
  address and no detected token's address equals it, case-insensitively.
\<close>

definition absent_from_all ::
  "string list \<Rightarrow> string list \<Rightarrow> detected_token list \<Rightarrow> string \<Rightarrow> bool" where
  "absent_from_all held hidden detected t \<longleftrightarrow>
     (\<forall>a\<in>set held. \<not> isEqualCaseInsensitive a t) \<and>
     (\<forall>a\<in>set hidden. \<not> isEqualCaseInsensitive a t) \<and>
     (\<forall>d\<in>set detected. \<not> isEqualCaseInsensitive (detected_token.address d) t)"

text \<open>
  The discoveries of a result: the tokens of the token list under the keys of the
  result, in the order of the keys, each as the object of line 143.
\<close>

definition discoveries :: "catalog \<Rightarrow> string list \<Rightarrow> detected_token list" where
  "discoveries tokenList keys =
     map (\<lambda>t. \<lparr>address = token.address t, symbol = token.symbol t,
                decimals = token.decimals t, image_src = iconUrl t,
                aggregators = token.aggregators t\<rparr>)
       (List.map_filter (map_of tokenList) keys)"

text \<open>
  What one slice contributes to a run: the oracle call, and then either the warning,
  when the call is rejected, or what the handling of the result does.
\<close>

definition batch_effects :: "env \<Rightarrow> controller \<Rightarrow> catalog \<Rightarrow> nat \<Rightarrow> string list \<Rightarrow> effect list" where
  "batch_effects env s tokenList j batch =
     OracleCall (selectedAddress s) batch #
       (case getBalancesInSingleCall env j (selectedAddress s) batch of
          Rejected \<Rightarrow> [Warn fetch_failed]
        | Resolved r \<Rightarrow> fst (handle_result env s tokenList r))"

text \<open>
  A slice is completed when its oracle call resolves, with addresses of the slice
  only, and the result is handled without an error.
\<close>

definition completed :: "env \<Rightarrow> controller \<Rightarrow> catalog \<Rightarrow> nat \<Rightarrow> string list \<Rightarrow> bool" where
  "completed env s tokenList j batch =
     (case getBalancesInSingleCall env j (selectedAddress s) batch of
        Rejected \<Rightarrow> False
      | Resolved r \<Rightarrow>
          snd (handle_result env s tokenList r) = None
          \<and> (case r of None \<Rightarrow> True | Some keys \<Rightarrow> set keys \<subseteq> set batch))"

text \<open>
  A token list as the spec describes it: the address is the identity of an entry,
  case-insensitively. No two keys are equal up to case, no key is empty, and every
  entry carries the address it is filed under.
\<close>

definition well_formed_catalog :: "catalog \<Rightarrow> bool" where
  "well_formed_catalog tokenList \<longleftrightarrow>
     distinct (map (\<lambda>e. toLowerCase (fst e)) tokenList)
     \<and> (\<forall>e\<in>set tokenList.
           fst e \<noteq> [] \<and> isEqualCaseInsensitive (token.address (snd e)) (fst e))"

text \<open>
  The state of the token store after a run that wrote \<open>written\<close>, when nothing else
  was added meanwhile: it knows no address that it did not know before or was not
  given by the run.
\<close>

definition known_after ::
  "detected_token list \<Rightarrow> string list \<Rightarrow> string list \<Rightarrow> detected_token list
     \<Rightarrow> tokens_state \<Rightarrow> bool" where
  "known_after written held hidden detected st \<longleftrightarrow>
     set (map detected_token.address (state_tokens st)) \<subseteq> set held
     \<and> set (state_ignoredTokens st) \<subseteq> set hidden
     \<and> set (state_detectedTokens st) \<subseteq> set detected \<union> set written"

subsection \<open>Example inputs\<close>

definition example_token :: "string \<Rightarrow> string \<Rightarrow> token" where
  "example_token a smb =
     \<lparr>token.address = a, symbol = smb, decimals = 18, iconUrl = [], aggregators = []\<rparr>"

definition example_catalog :: catalog where
  "example_catalog =
     [(''0xa1'', example_token ''0xa1'' ''AAA''),
      (''0xb2'', example_token ''0xb2'' ''BBB''),
      (''0xc3'', example_token ''0xc3'' ''CCC'')]"

text \<open>
  An oracle that rejects its call number \<open>failing\<close> and otherwise reports the
  addresses of the slice that are among \<open>funded\<close>.
\<close>

definition example_oracle ::
  "nat \<Rightarrow> string list \<Rightarrow> nat \<Rightarrow> string option \<Rightarrow> string list \<Rightarrow> balances" where
  "example_oracle failing funded i account batch =
     (if i = failing then Rejected
      else Resolved (Some (filter (\<lambda>a. a \<in> set funded) batch)))"

definition example_env :: "nat \<Rightarrow> string list \<Rightarrow> env" where
  "example_env failing funded =
     \<lparr>isTokenDetectionEnabledForNetwork = (\<lambda>c. c = ''0x1''),
      getBalancesInSingleCall = example_oracle failing funded,
      addDetectedTokens = (\<lambda>ds. True)\<rparr>"

text \<open>A controller with every collaborator, an open view and an unlocked session.\<close>

definition example_controller :: "catalog \<Rightarrow> string list \<Rightarrow> string list \<Rightarrow> controller" where
  "example_controller tokenList held hidden =
     \<lparr>assetsContractController = True, tokensController = True, preferences = True,
      priv_network = Some \<lparr>chainId = ''0x1'', provider = 7\<rparr>,
      priv_keyringMemStore = True, priv_tokenList = Some tokenList,
      selectedAddress = Some ''0xacc'', useTokenDetection = Some True,
      tokenAddresses = Some held, hiddenTokens = Some hidden, detectedTokens = Some [],
      priv_trackMetaMetricsEvent = True, priv_handle = Some DEFAULT_INTERVAL,
      isOpen = True, isUnlocked = Some True\<rparr>"

definition locked_controller :: controller where
  "locked_controller =
     (example_controller example_catalog [''0xA1''] [''0xb2''])\<lparr>isUnlocked := Some False\<rparr>"


definition no_collaborators :: config where
  "no_collaborators =
     \<lparr>config_interval = None, config_preferences = None, config_network = None,
      config_keyringMemStore = False, config_tokenList = None,
      config_tokensController = None, config_assetsContractController = False,
      config_trackMetaMetricsEvent = False\<rparr>"

text \<open>A token list of \<open>n\<close> entries with addresses of \<open>n\<close> different lengths.\<close>

definition numbered_address :: "nat \<Rightarrow> string" where
  "numbered_address n = ''0x'' @ replicate n CHR ''f''"

definition numbered_catalog :: "nat \<Rightarrow> catalog" where
  "numbered_catalog n =
     map (\<lambda>i. (numbered_address i, example_token (numbered_address i) ''TKN'')) [0..<n]"

text \<open>
  The token store after a run on the numbered token list of 1002 entries whose second
  oracle call is rejected: it holds what the run gave it and nothing else.
\<close>

definition numbered_store :: tokens_state where
  "numbered_store =
     \<lparr>state_tokens = [], state_ignoredTokens = [],
      state_detectedTokens =
        store_writes (fst (detectNewTokens (example_env 1 [numbered_address 5])
          (example_controller (numbered_catalog 1002) [] [])))\<rparr>"

section \<open>Properties\<close>

lemmas example_defs =
  example_controller_def example_env_def example_catalog_def example_token_def
  example_oracle_def

lemmas run_defs =
  detectNewTokens_def isActive_def truthy_bool_def truthy_string_def truthy_object_def
  is_unknown_def sliceOfTokensToDetect_def js_slice_def handle_result_def
  token_detected_def isEqualCaseInsensitive_def toLowerCase_def toLowerCase_char_def

subsection \<open>The candidates (lines 96-112)\<close>

lemma eqci_refl: "isEqualCaseInsensitive a a"
  by (simp add: isEqualCaseInsensitive_def)

lemma eqci_empty: "isEqualCaseInsensitive [] t \<longleftrightarrow> t = []"
  by (auto simp add: isEqualCaseInsensitive_def toLowerCase_def)

lemma eqci_lower: "isEqualCaseInsensitive a b \<longleftrightarrow> toLowerCase a = toLowerCase b"
  by (simp add: isEqualCaseInsensitive_def)

text \<open>
  \<open>!list.find(...)\<close> is a test of membership as long as what is found is truthy:
  an address equal to a key that is not empty is not empty.
\<close>

lemma truthy_find_string:
  assumes "t \<noteq> []"
  shows "truthy_string (find (\<lambda>a. isEqualCaseInsensitive a t) xs)
           \<longleftrightarrow> (\<exists>a\<in>set xs. isEqualCaseInsensitive a t)"
proof (induction xs)
  case Nil
  show ?case by (simp add: truthy_string_def)
next
  case (Cons a xs)
  have "isEqualCaseInsensitive a t \<Longrightarrow> a \<noteq> []"
    using assms eqci_empty by auto
  with Cons show ?case by (auto simp add: truthy_string_def)
qed

lemma truthy_find_object:
  "truthy_object (find P xs) \<longleftrightarrow> (\<exists>x\<in>set xs. P x)"
  by (induction xs) (auto simp add: truthy_object_def)

lemma is_unknown_eq:
  assumes "tokenAddresses s = Some held" "hiddenTokens s = Some hidden"
    "detectedTokens s = Some detected" "t \<noteq> []"
  shows "is_unknown s t = Inr (absent_from_all held hidden detected t)"
  using assms
  by (auto simp add: is_unknown_def absent_from_all_def truthy_find_string truthy_find_object)

lemma for_tokenAddress_eq:
  assumes "tokenAddresses s = Some held" "hiddenTokens s = Some hidden"
    "detectedTokens s = Some detected" "[] \<notin> set keys"
  shows "for_tokenAddress s keys acc
           = Inr (acc @ filter (absent_from_all held hidden detected) keys)"
  using assms(4)
proof (induction keys arbitrary: acc)
  case Nil
  then show ?case by simp
next
  case (Cons t keys)
  then have "t \<noteq> []" by auto
  then have "is_unknown s t = Inr (absent_from_all held hidden detected t)"
    using assms(1-3) by (rule is_unknown_eq[rotated 3])
  with Cons show ?case by simp
qed

text \<open>
  C2. With the three mirrors defined and a token list whose keys are addresses (none
  is the empty string), the candidate list of a tick is the list of the keys, in the
  order of iteration, that are absent from the held, the hidden and the detected
  addresses under case-insensitive comparison. Hence no address that is in one of the
  three sets is a candidate, whatever the other two hold. The loop returns the list
  and assigns to nothing: the controller and the token list are as they were.
\<close>

theorem candidate_list:
  assumes "tokenAddresses s = Some held" and "hiddenTokens s = Some hidden"
    and "detectedTokens s = Some detected"
    and "[] \<notin> set (map fst tokenList)"
  shows "for_tokenAddress s (map fst tokenList) [] =
           Inr (filter (absent_from_all held hidden detected) (map fst tokenList))
         \<and> (\<forall>a \<in> set held \<union> set hidden \<union> detected_token.address ` set detected.
               a \<notin> set (filter (absent_from_all held hidden detected) (map fst tokenList)))"
proof -
  have "for_tokenAddress s (map fst tokenList) [] =
           Inr ([] @ filter (absent_from_all held hidden detected) (map fst tokenList))"
    using assms by (rule for_tokenAddress_eq)
  moreover have "\<forall>a \<in> set held \<union> set hidden \<union> detected_token.address ` set detected.
               \<not> absent_from_all held hidden detected a"
    using eqci_refl by (auto simp add: absent_from_all_def)
  ultimately show ?thesis by simp
qed

text \<open>
  The token list \<open>{A, B, C}\<close> with \<open>A\<close> held (written in another case) and \<open>B\<close>
  hidden: the candidates are \<open>C\<close> alone.
\<close>

theorem candidate_list_witness:
  "[] \<notin> set (map fst example_catalog)
   \<and> for_tokenAddress (example_controller example_catalog [''0xA1''] [''0xb2''])
       (map fst example_catalog) [] = Inr [''0xc3'']"
  using candidate_list[of "example_controller example_catalog [''0xA1''] [''0xb2'']"
      "[''0xA1'']" "[''0xb2'']" "[]" example_catalog]
  by (simp add: example_controller_def example_catalog_def absent_from_all_def
      isEqualCaseInsensitive_def toLowerCase_def toLowerCase_char_def)

text \<open>
  Where the empty string is a key and is held, \<open>find\<close> returns it, \<open>!\<close> takes it for
  nothing found, and the key is pushed: the hypothesis on the keys is needed.
\<close>

lemma empty_key_is_pushed:
  "for_tokenAddress (example_controller [([], example_token [] ''E'')] [[]] [])
     [[]] [] = Inr [[]]"
  by (simp add: example_controller_def run_defs)

subsection \<open>The handling of a result (lines 132-164)\<close>

lemma for_nonZeroTokenAddress_eq:
  assumes "set keys \<subseteq> fst ` set cat"
  shows "for_nonZeroTokenAddress cat keys (ev, tw) =
     Inr (ev @ map (\<lambda>d. detected_token.symbol d @ '' - '' @ detected_token.address d)
                (discoveries cat keys),
          tw @ discoveries cat keys)"
  using assms
proof (induction keys arbitrary: ev tw)
  case Nil
  show ?case by (simp add: discoveries_def map_filter_simps)
next
  case (Cons k keys)
  then have "k \<in> fst ` set cat" by simp
  then obtain t where t: "map_of cat k = Some t"
    by (metis map_of_eq_None_iff not_Some_eq)
  from Cons have "set keys \<subseteq> fst ` set cat" by simp
  from Cons.IH[OF this] t show ?case
    by (simp add: discoveries_def map_filter_simps)
qed

lemma for_nonZeroTokenAddress_keys:
  "for_nonZeroTokenAddress cat keys acc = Inr res \<Longrightarrow> set keys \<subseteq> fst ` set cat"
proof (induction keys arbitrary: acc)
  case Nil
  show ?case by simp
next
  case (Cons k keys)
  obtain ev tw where acc: "acc = (ev, tw)" by (cases acc)
  from Cons.prems acc obtain t where t: "map_of cat k = Some t"
    by (cases "map_of cat k") auto
  then have "k \<in> fst ` set cat" by (metis map_of_eq_None_iff option.distinct(1))
  moreover from Cons.prems acc t have "set keys \<subseteq> fst ` set cat"
    by (auto dest: Cons.IH)
  ultimately show ?case by simp
qed

lemma handle_result_no_oracle:
  "handle_result env s cat r = (es, e) \<Longrightarrow> oracle_batches es = []"
  by (auto simp add: handle_result_def split: option.splits sum.splits prod.splits if_splits)

text \<open>
  C5. Let the keys of a result all be keys of the token list, and let the metrics hook
  and the token store be there. If the discovery list is not empty, the handling of
  the result has exactly two effects: one event, which carries the pair
  \<open>symbol - address\<close> of every discovery, the token standard \<open>ERC20\<close> and the asset
  type \<open>TOKEN\<close>, and then one call of the store with the whole discovery list. If
  the discovery list is empty, or the oracle resolved with nothing, it has no effect.
  The handling assigns to no field of the controller.
\<close>

theorem reconciler_effects:
  assumes "set keys \<subseteq> fst ` set tokenList"
    and "priv_trackMetaMetricsEvent s" and "tokensController s"
  shows "handle_result env s tokenList (Some keys) =
           (if discoveries tokenList keys = [] then ([], None)
            else ([Track \<lparr>event = EVENT_NAMES_TOKEN_DETECTED,
                          category = EVENT_CATEGORIES_WALLET,
                          properties_tokens =
                            map (\<lambda>d. detected_token.symbol d @ '' - '' @ detected_token.address d)
                              (discoveries tokenList keys),
                          properties_token_standard = TOKEN_STANDARDS_ERC20,
                          properties_asset_type = ASSET_TYPES_TOKEN\<rparr>,
                   AddDetected (discoveries tokenList keys)],
                  if addDetectedTokens env (discoveries tokenList keys) then None
                  else Some Rejection))
         \<and> handle_result env s tokenList None = ([], None)"
  using assms
  by (simp add: handle_result_def for_nonZeroTokenAddress_eq token_detected_def)

text \<open>The third token of the example has a balance.\<close>

theorem reconciler_effects_witness:
  "set [''0xc3''] \<subseteq> fst ` set example_catalog
   \<and> handle_result (example_env 2 []) (example_controller example_catalog [] [])
       example_catalog (Some [''0xc3''])
     = ([Track \<lparr>event = EVENT_NAMES_TOKEN_DETECTED, category = EVENT_CATEGORIES_WALLET,
                properties_tokens = [''CCC - 0xc3''],
                properties_token_standard = TOKEN_STANDARDS_ERC20,
                properties_asset_type = ASSET_TYPES_TOKEN\<rparr>,
         AddDetected [\<lparr>address = ''0xc3'', symbol = ''CCC'', decimals = 18,
                       image_src = [], aggregators = []\<rparr>]],
        None)"
  using reconciler_effects[of "[''0xc3'']" example_catalog
      "example_controller example_catalog [] []" "example_env 2 []"]
  by (simp add: discoveries_def map_filter_simps example_defs)

subsection \<open>The slices and the oracle calls (lines 113-123)\<close>

lemma js_slice_first: "js_slice 0 1000 xs = take 1000 xs"
  by (simp add: js_slice_def Let_def min_def)

lemma js_slice_rest:
  "js_slice 1000 (int (length xs) - 1) xs = take (length xs - 1001) (drop 1000 xs)"
proof -
  have a: "nat (int (length xs) - 1001) = length xs - 1001" by linarith
  show ?thesis
    by (cases "1000 \<le> length xs") (auto simp add: js_slice_def Let_def min_def max_def a)
qed

lemma sliceOfTokensToDetect_eq:
  "sliceOfTokensToDetect xs = [take 1000 xs, take (length xs - 1001) (drop 1000 xs)]"
  by (simp add: sliceOfTokensToDetect_def js_slice_first js_slice_rest)

lemma concat_slices_long:
  assumes "1000 < length xs"
  shows "concat (sliceOfTokensToDetect xs) = butlast xs"
proof -
  have n: "length xs - 1 = 1000 + (length xs - 1001)" using assms by simp
  have "butlast xs = take (length xs - 1) xs" by (simp add: butlast_conv_take)
  also have "\<dots> = take 1000 xs @ take (length xs - 1001) (drop 1000 xs)"
    by (subst n) (rule take_add)
  finally show ?thesis by (simp add: sliceOfTokensToDetect_eq)
qed

lemma slices_short:
  assumes "length xs \<le> 1000"
  shows "sliceOfTokensToDetect xs = [xs, []]"
  using assms by (simp add: sliceOfTokensToDetect_eq)

lemma oracle_batches_append:
  "oracle_batches (es @ es') = oracle_batches es @ oracle_batches es'"
  by (induction es rule: oracle_batches.induct) simp_all

lemma store_writes_append:
  "store_writes (es @ es') = store_writes es @ store_writes es'"
  by (induction es rule: store_writes.induct) simp_all

text \<open>The oracle is asked about the slices one after the other, and about nothing else.\<close>

lemma oracle_batches_prefix:
  "prefix (oracle_batches (fst (for_tokensSlice env s cat i slices))) slices"
proof (induction slices arbitrary: i)
  case Nil
  show ?case by simp
next
  case (Cons sl rest)
  show ?case
    using Cons[of "Suc i"]
    by (auto simp add: oracle_batches_append dest: handle_result_no_oracle
        split: balances.splits prod.splits option.splits)
qed


text \<open>The method, once past its guards, in terms of its two loops.\<close>

lemma detectNewTokens_eq:
  assumes "isActive s" "truthy_bool (useTokenDetection s)" "priv_network s = Some net"
    "isTokenDetectionEnabledForNetwork env (chainId net)" "priv_tokenList s = Some cat"
    "for_tokenAddress s (map fst cat) [] = Inr cs"
  shows "detectNewTokens env s =
     (SetProvider (provider net) # fst (for_tokensSlice env s cat 0 (sliceOfTokensToDetect cs)),
      snd (for_tokensSlice env s cat 0 (sliceOfTokensToDetect cs)))"
  using assms by (simp add: detectNewTokens_def split: prod.splits)

text \<open>Runs on the numbered token list, where every key is a candidate and none has a balance.\<close>

lemma numbered_keys: "map fst (numbered_catalog n) = map numbered_address [0..<n]"
  by (simp add: numbered_catalog_def comp_def)

lemma numbered_address_inj: "numbered_address i = numbered_address j \<Longrightarrow> i = j"
proof -
  assume "numbered_address i = numbered_address j"
  then have "length (numbered_address i) = length (numbered_address j)" by simp
  then show "i = j" by (simp add: numbered_address_def)
qed

lemma numbered_distinct: "distinct (map numbered_address [0..<n])"
  by (simp add: distinct_map inj_on_def) (blast dest: numbered_address_inj)

lemma numbered_candidates:
  "for_tokenAddress (example_controller (numbered_catalog n) [] [])
     (map fst (numbered_catalog n)) [] = Inr (map numbered_address [0..<n])"
proof -
  have "[] \<notin> set (map fst (numbered_catalog n))"
    by (auto simp add: numbered_keys numbered_address_def)
  then have "for_tokenAddress (example_controller (numbered_catalog n) [] [])
     (map fst (numbered_catalog n)) []
     = Inr ([] @ filter (absent_from_all [] [] []) (map fst (numbered_catalog n)))"
    by (intro for_tokenAddress_eq) (simp_all add: example_controller_def)
  then show ?thesis by (simp add: absent_from_all_def numbered_keys)
qed

lemma numbered_slices_run:
  "for_tokensSlice (example_env 2 []) (example_controller (numbered_catalog n) [] [])
     (numbered_catalog n) 0 (sliceOfTokensToDetect (map numbered_address [0..<n]))
   = ([OracleCall (Some ''0xacc'') (take 1000 (map numbered_address [0..<n])),
       OracleCall (Some ''0xacc'')
         (take (n - 1001) (drop 1000 (map numbered_address [0..<n])))],
      None)"
proof -
  have h: "handle_result (example_env 2 []) (example_controller (numbered_catalog n) [] [])
             (numbered_catalog n) (Some []) = ([], None)"
    by (simp add: handle_result_def)
  then show ?thesis
    by (simp add: sliceOfTokensToDetect_eq)
       (simp add: example_controller_def example_env_def example_oracle_def)
qed

lemma numbered_run:
  "detectNewTokens (example_env 2 []) (example_controller (numbered_catalog n) [] [])
   = ([SetProvider 7,
       OracleCall (Some ''0xacc'') (take 1000 (map numbered_address [0..<n])),
       OracleCall (Some ''0xacc'')
         (take (n - 1001) (drop 1000 (map numbered_address [0..<n])))],
      None)"
proof -
  have "detectNewTokens (example_env 2 []) (example_controller (numbered_catalog n) [] [])
    = (SetProvider 7 # fst (for_tokensSlice (example_env 2 [])
          (example_controller (numbered_catalog n) [] []) (numbered_catalog n) 0
          (sliceOfTokensToDetect (map numbered_address [0..<n]))),
       snd (for_tokensSlice (example_env 2 [])
          (example_controller (numbered_catalog n) [] []) (numbered_catalog n) 0
          (sliceOfTokensToDetect (map numbered_address [0..<n]))))"
    using numbered_candidates[of n]
    by (subst detectNewTokens_eq[where net = "\<lparr>chainId = ''0x1'', provider = 7\<rparr>"
          and cat = "numbered_catalog n" and cs = "map numbered_address [0..<n]"])
       (simp_all add: example_controller_def example_env_def isActive_def truthy_bool_def)
  then show ?thesis by (simp add: numbered_slices_run)
qed




lemma last_not_in_butlast:
  assumes "distinct xs" "xs \<noteq> []"
  shows "last xs \<notin> set (butlast xs)"
proof -
  have "distinct (butlast xs @ [last xs])" using assms by simp
  then show ?thesis by simp
qed

text \<open>
  C7. Up to 1000 candidates, the first slice holds them all. Beyond 1000, the two
  slices together are the candidates without the last one, so that the last candidate
  (the candidates are keys of one object, hence distinct) is in no oracle call of the
  tick, whether the number of candidates is a multiple of 1000 or not.
\<close>

theorem last_candidate_dropped:
  "(length xs \<le> 1000 \<longrightarrow> sliceOfTokensToDetect xs = [xs, []])
   \<and> (1000 < length xs \<longrightarrow> concat (sliceOfTokensToDetect xs) = butlast xs)
   \<and> (1000 < length xs \<and> distinct xs \<longrightarrow>
        last xs \<notin> set (concat (oracle_batches
          (fst (for_tokensSlice env s tokenList i (sliceOfTokensToDetect xs))))))"
proof -
  have "last xs \<notin> set (concat (oracle_batches
          (fst (for_tokensSlice env s tokenList i (sliceOfTokensToDetect xs)))))"
    if long: "1000 < length xs" and d: "distinct xs"
  proof -
    have "set (oracle_batches (fst (for_tokensSlice env s tokenList i (sliceOfTokensToDetect xs))))
          \<subseteq> set (sliceOfTokensToDetect xs)"
      using oracle_batches_prefix by (rule set_mono_prefix)
    then have "set (concat (oracle_batches
          (fst (for_tokensSlice env s tokenList i (sliceOfTokensToDetect xs)))))
          \<subseteq> set (concat (sliceOfTokensToDetect xs))"
      by auto
    moreover have "last xs \<notin> set (butlast xs)"
      using d long by (intro last_not_in_butlast) auto
    ultimately show ?thesis using concat_slices_long[OF long] by auto
  qed
  then show ?thesis
    using slices_short concat_slices_long by blast
qed

text \<open>Two thousand candidates: the last one is in neither call.\<close>

theorem last_candidate_dropped_witness:
  "1000 < length (map numbered_address [0..<2000])
   \<and> distinct (map numbered_address [0..<2000])
   \<and> last (map numbered_address [0..<2000])
       \<notin> set (concat (oracle_batches (fst (for_tokensSlice (example_env 2 [])
            (example_controller (numbered_catalog 2000) [] []) (numbered_catalog 2000) 0
            (sliceOfTokensToDetect (map numbered_address [0..<2000]))))))"
proof -
  have a: "1000 < length (map numbered_address [0..<2000])" by simp
  have b: "distinct (map numbered_address [0..<2000])" by (rule numbered_distinct)
  from a b last_candidate_dropped[of "map numbered_address [0..<2000]" "example_env 2 []"
      "example_controller (numbered_catalog 2000) [] []" "numbered_catalog 2000" 0]
  show ?thesis by blast
qed

text \<open>
  Exactly one thousand candidates: the last of them is in the first oracle call.
\<close>

theorem last_of_1000_counterexample:
  "length (map numbered_address [0..<1000]) = 1000
   \<and> for_tokenAddress (example_controller (numbered_catalog 1000) [] [])
       (map fst (numbered_catalog 1000)) [] = Inr (map numbered_address [0..<1000])
   \<and> last (map numbered_address [0..<1000])
       \<in> set (concat (oracle_batches (fst (detectNewTokens (example_env 2 [])
            (example_controller (numbered_catalog 1000) [] [])))))"
proof -
  have "map numbered_address [0..<1000] \<noteq> []" by simp
  then have "last (map numbered_address [0..<1000]) \<in> set (map numbered_address [0..<1000])"
    by (rule last_in_set)
  then show ?thesis
    using numbered_candidates[of 1000] by (simp add: numbered_run)
qed

subsection \<open>A rejected oracle call (lines 117-130)\<close>

lemma oracle_batches_concat:
  "oracle_batches (concat ess) = concat (map oracle_batches ess)"
  by (induction ess) (simp_all add: oracle_batches_append)

lemma store_writes_concat:
  "store_writes (concat ess) = concat (map store_writes ess)"
  by (induction ess) (simp_all add: store_writes_append)

lemma oracle_batches_batch_effects:
  "oracle_batches (batch_effects env s cat j b) = [b]"
  by (cases "handle_result env s cat
        (case getBalancesInSingleCall env j (selectedAddress s) b of Resolved r \<Rightarrow> r)")
     (auto simp add: batch_effects_def split: balances.splits dest: handle_result_no_oracle)

text \<open>
  The loop, when the slices before number \<open>k\<close> are completed and the call for slice
  \<open>k\<close> is rejected: it stops there, with the warning.
\<close>

lemma failing_run:
  assumes "assetsContractController s" and "k < length slices"
    and "\<forall>j<k. completed env s cat (i + j) (slices ! j)"
    and "getBalancesInSingleCall env (i + k) (selectedAddress s) (slices ! k) = Rejected"
  shows "for_tokensSlice env s cat i slices =
           (concat (map (\<lambda>j. batch_effects env s cat (i + j) (slices ! j)) [0..<Suc k]), None)"
  using assms(2-4)
proof (induction slices arbitrary: i k)
  case Nil
  then show ?case by simp
next
  case (Cons sl rest)
  show ?case
  proof (cases k)
    case 0
    with Cons.prems assms(1) show ?thesis by (simp add: batch_effects_def)
  next
    case (Suc k')
    from Cons.prems Suc have c0: "completed env s cat i sl" by force
    then obtain r where r: "getBalancesInSingleCall env i (selectedAddress s) sl = Resolved r"
      and h: "snd (handle_result env s cat r) = None"
      by (auto simp add: completed_def split: balances.splits)
    have k': "k' < length rest" using Cons.prems Suc by simp
    have before: "\<forall>j<k'. completed env s cat (Suc i + j) (rest ! j)"
    proof (intro allI impI)
      fix j assume "j < k'"
      then have "Suc j < k" using Suc by simp
      with Cons.prems(2) have "completed env s cat (i + Suc j) ((sl # rest) ! Suc j)" by blast
      then show "completed env s cat (Suc i + j) (rest ! j)" by simp
    qed
    have fails: "getBalancesInSingleCall env (Suc i + k') (selectedAddress s) (rest ! k') = Rejected"
      using Cons.prems(3) Suc by simp
    have ih: "for_tokensSlice env s cat (Suc i) rest =
           (concat (map (\<lambda>j. batch_effects env s cat (Suc i + j) (rest ! j)) [0..<Suc k']), None)"
      using Cons.IH[OF k' before fails] .
    have idx: "[0..<Suc k] = 0 # map Suc [0..<Suc k']"
      using Suc by (simp add: upt_conv_Cons map_Suc_upt del: upt_Suc)
    obtain es where es: "handle_result env s cat r = (es, None)"
      using h by (cases "handle_result env s cat r") auto
    show ?thesis
      unfolding idx using assms(1) r es ih
      by (simp add: batch_effects_def comp_def del: upt_Suc)
  qed
qed

text \<open>What reaches the store was found in the token list under a key of a completed slice.\<close>

lemma discoveries_from:
  assumes "d \<in> set (discoveries cat keys)"
  shows "\<exists>key t. key \<in> set keys \<and> map_of cat key = Some t
           \<and> detected_token.address d = token.address t"
  using assms by (auto simp add: discoveries_def map_filter_def)

lemma handle_result_writes:
  assumes "d \<in> set (store_writes (fst (handle_result env s cat r)))"
  shows "\<exists>keys key t. r = Some keys \<and> key \<in> set keys \<and> map_of cat key = Some t
           \<and> detected_token.address d = token.address t"
proof (cases r)
  case None
  with assms show ?thesis by (simp add: handle_result_def)
next
  case (Some keys)
  show ?thesis
  proof (cases "for_nonZeroTokenAddress cat keys ([], [])")
    case (Inl e)
    with assms Some show ?thesis by (simp add: handle_result_def)
  next
    case (Inr res)
    then have "set keys \<subseteq> fst ` set cat" by (rule for_nonZeroTokenAddress_keys)
    then have "for_nonZeroTokenAddress cat keys ([], []) =
       Inr ([] @ map (\<lambda>d. detected_token.symbol d @ '' - '' @ detected_token.address d)
                (discoveries cat keys), [] @ discoveries cat keys)"
      by (rule for_nonZeroTokenAddress_eq)
    with assms Some have "d \<in> set (discoveries cat keys)"
      by (auto simp add: handle_result_def split: if_splits)
    with Some show ?thesis using discoveries_from by blast
  qed
qed

lemma batch_effects_writes:
  assumes "completed env s cat j b"
    and "d \<in> set (store_writes (batch_effects env s cat j b))"
  shows "\<exists>key t. key \<in> set b \<and> map_of cat key = Some t
           \<and> detected_token.address d = token.address t"
proof -
  from assms(1) obtain r where r: "getBalancesInSingleCall env j (selectedAddress s) b = Resolved r"
    and within: "case r of None \<Rightarrow> True | Some keys \<Rightarrow> set keys \<subseteq> set b"
    by (auto simp add: completed_def split: balances.splits)
  from assms(2) r have "d \<in> set (store_writes (fst (handle_result env s cat r)))"
    by (simp add: batch_effects_def)
  then obtain keys key t where "r = Some keys" "key \<in> set keys" "map_of cat key = Some t"
    "detected_token.address d = token.address t"
    using handle_result_writes by blast
  with within show ?thesis by auto
qed

text \<open>The slices share no candidate, and hold candidates only.\<close>

lemma slices_distinct:
  assumes "distinct xs"
  shows "distinct (concat (sliceOfTokensToDetect xs))"
proof (cases "length xs \<le> 1000")
  case True
  with assms show ?thesis by (simp add: slices_short)
next
  case False
  then have "concat (sliceOfTokensToDetect xs) = butlast xs"
    by (intro concat_slices_long) simp
  with assms show ?thesis by (simp add: distinct_butlast)
qed

lemma slices_subset: "set (concat (sliceOfTokensToDetect xs)) \<subseteq> set xs"
proof (cases "length xs \<le> 1000")
  case True
  then show ?thesis by (simp add: slices_short)
next
  case False
  then have "concat (sliceOfTokensToDetect xs) = butlast xs"
    by (intro concat_slices_long) simp
  then show ?thesis by (auto dest: in_set_butlastD)
qed

lemma take_drop_disjoint:
  assumes "distinct (concat xss)"
  shows "set (concat (take k xss)) \<inter> set (concat (drop k xss)) = {}"
proof -
  have "concat xss = concat (take k xss) @ concat (drop k xss)"
    by (metis append_take_drop_id concat_append)
  with assms have "distinct (concat (take k xss) @ concat (drop k xss))" by simp
  then show ?thesis by simp
qed

lemma nth_upt_take:
  assumes "n \<le> length xs"
  shows "map (\<lambda>j. xs ! j) [0..<n] = take n xs"
  using assms by (intro nth_equalityI) simp_all

text \<open>
  C4. Take a run that is past its guards, on a controller with its oracle and its
  three mirrors, over a well-formed token list. Let the slices before slice \<open>k\<close> be
  completed and the oracle call for slice \<open>k\<close> be rejected. Then the run returns
  without an error, and its effects are, after the provider is set: for each slice
  before \<open>k\<close> its oracle call and what the handling of its result does (the event and
  the store write of its discoveries), then the oracle call for slice \<open>k\<close> and the
  warning, and nothing more. So the oracle is asked about the slices up to \<open>k\<close> and
  about no later one, and the store is written for the slices before \<open>k\<close> only. If the
  store then knows no address but those it knew and those it was given, every address
  of slice \<open>k\<close> and of the later slices is a candidate again on the next tick.
\<close>

theorem oracle_failure_contained:
  assumes ready: "isActive s" "truthy_bool (useTokenDetection s)" "priv_network s = Some net"
      "isTokenDetectionEnabledForNetwork env (chainId net)" "priv_tokenList s = Some tokenList"
      "assetsContractController s"
    and mirrors: "tokenAddresses s = Some held" "hiddenTokens s = Some hidden"
      "detectedTokens s = Some detected"
    and wf: "well_formed_catalog tokenList"
    and slices: "slices = sliceOfTokensToDetect
                   (filter (absent_from_all held hidden detected) (map fst tokenList))"
    and k: "k < length slices"
    and before: "\<forall>j<k. completed env s tokenList j (slices ! j)"
    and fails: "getBalancesInSingleCall env k (selectedAddress s) (slices ! k) = Rejected"
    and after: "known_after (store_writes (fst (detectNewTokens env s))) held hidden detected st"
  shows "detectNewTokens env s =
           (SetProvider (provider net) #
              concat (map (\<lambda>j. batch_effects env s tokenList j (slices ! j)) [0..<k])
              @ [OracleCall (selectedAddress s) (slices ! k), Warn fetch_failed],
            None)
         \<and> oracle_batches (fst (detectNewTokens env s)) = take (Suc k) slices
         \<and> store_writes (fst (detectNewTokens env s)) =
             concat (map (\<lambda>j. store_writes (batch_effects env s tokenList j (slices ! j))) [0..<k])
         \<and> (\<exists>cs. for_tokenAddress (on_tokens st s) (map fst tokenList) [] = Inr cs
                \<and> set (concat (drop k slices)) \<subseteq> set cs)"
proof -
  let ?keys = "map fst tokenList"
  let ?cs = "filter (absent_from_all held hidden detected) ?keys"
  let ?fx = "\<lambda>j. batch_effects env s tokenList j (slices ! j)"
  have keys_ne: "[] \<notin> set ?keys"
    using wf by (auto simp add: well_formed_catalog_def)
  have keys_lower: "distinct (map toLowerCase ?keys)"
    using wf by (simp add: well_formed_catalog_def comp_def)
  then have keys_inj: "distinct ?keys \<and> inj_on toLowerCase (set ?keys)"
    unfolding distinct_map .
  then have keys_distinct: "distinct ?keys" by (rule conjunct1)
  have cand: "for_tokenAddress s ?keys [] = Inr ([] @ ?cs)"
    using mirrors keys_ne by (rule for_tokenAddress_eq)
  have loop: "for_tokensSlice env s tokenList 0 slices =
               (concat (map (\<lambda>j. batch_effects env s tokenList (0 + j) (slices ! j)) [0..<Suc k]), None)"
    using ready(6) k before fails by (intro failing_run) simp_all
  have last: "?fx k = [OracleCall (selectedAddress s) (slices ! k), Warn fetch_failed]"
    using fails by (simp add: batch_effects_def)
  have run: "detectNewTokens env s = (SetProvider (provider net) # concat (map ?fx [0..<k])
              @ [OracleCall (selectedAddress s) (slices ! k), Warn fetch_failed], None)"
    using detectNewTokens_eq[OF ready(1-5), of ?cs] cand loop last slices by simp
  have batches: "oracle_batches (fst (detectNewTokens env s)) = take (Suc k) slices"
  proof -
    have "oracle_batches (fst (detectNewTokens env s))
            = concat (map (\<lambda>j. oracle_batches (?fx j)) [0..<k]) @ [slices ! k]"
      unfolding run by (simp add: oracle_batches_append oracle_batches_concat comp_def)
    also have "\<dots> = map (\<lambda>j. slices ! j) [0..<k] @ [slices ! k]"
      by (simp add: oracle_batches_batch_effects)
    also have "\<dots> = map (\<lambda>j. slices ! j) [0..<Suc k]" by simp
    also have "\<dots> = take (Suc k) slices" using k by (intro nth_upt_take) simp
    finally show ?thesis .
  qed
  have writes: "store_writes (fst (detectNewTokens env s)) =
             concat (map (\<lambda>j. store_writes (?fx j)) [0..<k])"
    unfolding run by (simp add: store_writes_append store_writes_concat comp_def)
  have written: "\<exists>key t. key \<in> set (concat (take k slices)) \<and> map_of tokenList key = Some t
                   \<and> detected_token.address d = token.address t"
    if d: "d \<in> set (store_writes (fst (detectNewTokens env s)))" for d
  proof -
    from d obtain j where j: "j < k" and dj: "d \<in> set (store_writes (?fx j))"
      unfolding writes by auto
    from before j have "completed env s tokenList j (slices ! j)" by blast
    from batch_effects_writes[OF this dj] obtain key t
      where key: "key \<in> set (slices ! j)" and t: "map_of tokenList key = Some t"
        and a: "detected_token.address d = token.address t" by blast
    have "slices ! j \<in> set (take k slices)"
      using j k by (metis in_set_conv_nth length_take less_trans min_less_iff_conj nth_take)
    with key have "key \<in> set (concat (take k slices))" by auto
    with t a show ?thesis by blast
  qed
  have cs_distinct: "distinct ?cs" using keys_distinct by simp
  have disjoint: "set (concat (take k slices)) \<inter> set (concat (drop k slices)) = {}"
    unfolding slices using cs_distinct by (intro take_drop_disjoint slices_distinct)
  have all_in: "set (concat slices) \<subseteq> set ?cs"
    unfolding slices by (rule slices_subset)
  let ?held' = "map detected_token.address (state_tokens st)"
  let ?hidden' = "state_ignoredTokens st"
  let ?detected' = "state_detectedTokens st"
  have next_cand: "for_tokenAddress (on_tokens st s) ?keys [] =
          Inr ([] @ filter (absent_from_all ?held' ?hidden' ?detected') ?keys)"
    using keys_ne by (intro for_tokenAddress_eq) (simp_all add: on_tokens_def)
  have still: "a \<in> set (filter (absent_from_all ?held' ?hidden' ?detected') ?keys)"
    if a: "a \<in> set (concat (drop k slices))" for a
  proof -
    have "set (concat (drop k slices)) \<subseteq> set (concat slices)"
      by (auto dest: in_set_dropD)
    with a all_in have a_cs: "a \<in> set ?cs" by blast
    then have a_key: "a \<in> set ?keys" and a_abs: "absent_from_all held hidden detected a"
      by simp_all
    have "\<not> isEqualCaseInsensitive (detected_token.address d) a"
      if d: "d \<in> set ?detected'" for d
    proof (cases "d \<in> set detected")
      case True
      with a_abs show ?thesis by (simp add: absent_from_all_def)
    next
      case False
      with d after have "d \<in> set (store_writes (fst (detectNewTokens env s)))"
        by (auto simp add: known_after_def)
      from written[OF this] obtain key t
        where key: "key \<in> set (concat (take k slices))" and t: "map_of tokenList key = Some t"
          and ad: "detected_token.address d = token.address t" by blast
      from t have e: "(key, t) \<in> set tokenList" by (rule map_of_SomeD)
      with wf have kt: "isEqualCaseInsensitive (token.address t) key"
        by (auto simp add: well_formed_catalog_def)
      from e have key_key: "key \<in> set ?keys" by force
      show ?thesis
      proof
        assume "isEqualCaseInsensitive (detected_token.address d) a"
        with ad kt have "toLowerCase key = toLowerCase a" by (simp add: eqci_lower)
        with keys_inj key_key a_key have "key = a"
          by (meson inj_onD)
        with key a disjoint show False by blast
      qed
    qed
    moreover have "\<forall>x\<in>set ?held'. \<not> isEqualCaseInsensitive x a"
      using after a_abs unfolding known_after_def absent_from_all_def by blast
    moreover have "\<forall>x\<in>set ?hidden'. \<not> isEqualCaseInsensitive x a"
      using after a_abs unfolding known_after_def absent_from_all_def by blast
    ultimately have "absent_from_all ?held' ?hidden' ?detected' a"
      unfolding absent_from_all_def by blast
    with a_key show ?thesis by simp
  qed
  have elig: "\<exists>cs. for_tokenAddress (on_tokens st s) ?keys [] = Inr cs
                \<and> set (concat (drop k slices)) \<subseteq> set cs"
    using next_cand still by auto
  from run batches writes elig show ?thesis by blast
qed

text \<open>
  The numbered token list of 1002 entries, the token of number 5 with a balance, and
  an oracle that rejects its second call.
\<close>

lemma numbered_lower: "toLowerCase (numbered_address i) = numbered_address i"
  by (simp add: toLowerCase_def numbered_address_def toLowerCase_char_def)

lemma numbered_well_formed: "well_formed_catalog (numbered_catalog n)"
proof -
  have "map (\<lambda>e. toLowerCase (fst e)) (numbered_catalog n) = map numbered_address [0..<n]"
    by (simp add: numbered_catalog_def comp_def numbered_lower)
  then have "distinct (map (\<lambda>e. toLowerCase (fst e)) (numbered_catalog n))"
    using numbered_distinct by simp
  moreover have "\<forall>e\<in>set (numbered_catalog n).
           fst e \<noteq> [] \<and> isEqualCaseInsensitive (token.address (snd e)) (fst e)"
    by (auto simp add: numbered_catalog_def example_token_def numbered_address_def eqci_refl)
  ultimately show ?thesis by (simp add: well_formed_catalog_def)
qed

lemma example_completed:
  assumes "i \<noteq> failing" and "set batch \<subseteq> fst ` set cat"
  shows "completed (example_env failing funded) (example_controller cat held hidden) cat i batch"
proof -
  let ?keys = "filter (\<lambda>a. a \<in> set funded) batch"
  have "set ?keys \<subseteq> fst ` set cat" using assms(2) by auto
  then have "for_nonZeroTokenAddress cat ?keys ([], []) =
     Inr ([] @ map (\<lambda>d. detected_token.symbol d @ '' - '' @ detected_token.address d)
                (discoveries cat ?keys), [] @ discoveries cat ?keys)"
    by (rule for_nonZeroTokenAddress_eq)
  then have "snd (handle_result (example_env failing funded)
                (example_controller cat held hidden) cat (Some ?keys)) = None"
    by (simp add: handle_result_def example_env_def example_controller_def)
  then show ?thesis
    using assms(1)
    by (simp add: completed_def example_env_def example_oracle_def example_controller_def)
qed

lemma numbered_slices:
  "sliceOfTokensToDetect (filter (absent_from_all [] [] []) (map fst (numbered_catalog 1002)))
   = [map numbered_address [0..<1000], [numbered_address 1000]]"
proof -
  have "take (Suc 0) (drop 1000 [0..<1002]) = [1000]"
    by (simp add: take_Suc_conv_app_nth)
  then show ?thesis
    by (simp add: absent_from_all_def numbered_keys sliceOfTokensToDetect_eq
        take_map drop_map)
qed


text \<open>
  The first slice is completed and its discovery reaches the store; the second slice,
  the address of number 1000 alone, is rejected, and that address is a candidate on
  the next tick.
\<close>

theorem oracle_failure_contained_witness:
  "well_formed_catalog (numbered_catalog 1002)
   \<and> completed (example_env 1 [numbered_address 5])
         (example_controller (numbered_catalog 1002) [] []) (numbered_catalog 1002) 0
         (map numbered_address [0..<1000])
   \<and> getBalancesInSingleCall (example_env 1 [numbered_address 5]) 1 (Some ''0xacc'')
         [numbered_address 1000] = Rejected
   \<and> oracle_batches (fst (detectNewTokens (example_env 1 [numbered_address 5])
         (example_controller (numbered_catalog 1002) [] [])))
       = [map numbered_address [0..<1000], [numbered_address 1000]]
   \<and> store_writes (fst (detectNewTokens (example_env 1 [numbered_address 5])
         (example_controller (numbered_catalog 1002) [] [])))
       = discoveries (numbered_catalog 1002)
           (filter (\<lambda>a. a \<in> set [numbered_address 5]) (map numbered_address [0..<1000]))
   \<and> (\<exists>cs. for_tokenAddress
               (on_tokens numbered_store (example_controller (numbered_catalog 1002) [] []))
               (map fst (numbered_catalog 1002)) [] = Inr cs
            \<and> numbered_address 1000 \<in> set cs)"
proof -
  let ?env = "example_env 1 [numbered_address 5]"
  let ?cat = "numbered_catalog 1002"
  let ?s = "example_controller ?cat [] []"
  let ?slices = "[map numbered_address [0..<1000], [numbered_address 1000]]"
  have r1: "isActive ?s" by (simp add: example_controller_def isActive_def truthy_bool_def)
  have r2: "truthy_bool (useTokenDetection ?s)"
    by (simp add: example_controller_def truthy_bool_def)
  have r3: "priv_network ?s = Some \<lparr>chainId = ''0x1'', provider = 7\<rparr>"
    by (simp add: example_controller_def)
  have r4: "isTokenDetectionEnabledForNetwork ?env (chainId \<lparr>chainId = ''0x1'', provider = 7\<rparr>)"
    by (simp add: example_env_def)
  have r5: "priv_tokenList ?s = Some ?cat" by (simp add: example_controller_def)
  have r6: "assetsContractController ?s" by (simp add: example_controller_def)
  have m1: "tokenAddresses ?s = Some []" by (simp add: example_controller_def)
  have m2: "hiddenTokens ?s = Some []" by (simp add: example_controller_def)
  have m3: "detectedTokens ?s = Some []" by (simp add: example_controller_def)
  have wf: "well_formed_catalog ?cat" by (rule numbered_well_formed)
  have sl: "?slices = sliceOfTokensToDetect
              (filter (absent_from_all [] [] []) (map fst ?cat))"
    by (simp add: numbered_slices)
  have k: "1 < length ?slices" by simp
  have sub: "set (map numbered_address [0..<1000]) \<subseteq> fst ` set ?cat"
  proof -
    have "fst ` set ?cat = set (map numbered_address [0..<1002])"
      using numbered_keys[of 1002] by (metis set_map)
    then show ?thesis by auto
  qed
  have c0: "completed ?env ?s ?cat 0 (map numbered_address [0..<1000])"
    using sub by (intro example_completed) simp_all
  then have before: "\<forall>j<1. completed ?env ?s ?cat j (?slices ! j)" by simp
  have rej: "getBalancesInSingleCall ?env 1 (Some ''0xacc'') [numbered_address 1000] = Rejected"
    by (simp add: example_env_def example_oracle_def)
  then have fails: "getBalancesInSingleCall ?env 1 (selectedAddress ?s) (?slices ! 1) = Rejected"
    by (simp add: example_controller_def)
  have after: "known_after (store_writes (fst (detectNewTokens ?env ?s))) [] [] [] numbered_store"
    by (simp add: known_after_def numbered_store_def)
  note main = oracle_failure_contained[OF r1 r2 r3 r4 r5 r6 m1 m2 m3 wf sl k before fails after]
  from main have "oracle_batches (fst (detectNewTokens ?env ?s)) = take (Suc 1) ?slices"
    by (elim conjE)
  then have b: "oracle_batches (fst (detectNewTokens ?env ?s)) = ?slices" by simp
  from main have "store_writes (fst (detectNewTokens ?env ?s))
      = concat (map (\<lambda>j. store_writes (batch_effects ?env ?s ?cat j (?slices ! j))) [0..<1])"
    by (elim conjE)
  then have "store_writes (fst (detectNewTokens ?env ?s))
      = store_writes (batch_effects ?env ?s ?cat 0 (map numbered_address [0..<1000]))"
    by simp
  moreover have "store_writes (batch_effects ?env ?s ?cat 0 (map numbered_address [0..<1000]))
      = discoveries ?cat
          (filter (\<lambda>a. a \<in> set [numbered_address 5]) (map numbered_address [0..<1000]))"
  proof -
    let ?keys = "filter (\<lambda>a. a \<in> set [numbered_address 5]) (map numbered_address [0..<1000])"
    have five: "numbered_address 5 \<in> set (map numbered_address [0..<1000])" by simp
    have "set ?keys \<subseteq> fst ` set ?cat" using sub by auto
    then have nz: "for_nonZeroTokenAddress ?cat ?keys ([], []) =
       Inr ([] @ map (\<lambda>d. detected_token.symbol d @ '' - '' @ detected_token.address d)
                (discoveries ?cat ?keys), [] @ discoveries ?cat ?keys)"
      by (rule for_nonZeroTokenAddress_eq)
    have "handle_result ?env ?s ?cat (Some ?keys)
        = (if discoveries ?cat ?keys = [] then ([], None)
           else ([Track (token_detected
                    (map (\<lambda>d. detected_token.symbol d @ '' - '' @ detected_token.address d)
                      (discoveries ?cat ?keys))),
                  AddDetected (discoveries ?cat ?keys)], None))"
      using nz by (simp add: handle_result_def example_env_def example_controller_def)
    then have "store_writes (fst (handle_result ?env ?s ?cat (Some ?keys)))
        = discoveries ?cat ?keys"
      by simp
    then show ?thesis
      by (simp add: batch_effects_def example_env_def example_oracle_def
          example_controller_def)
  qed
  ultimately have w: "store_writes (fst (detectNewTokens ?env ?s))
      = discoveries ?cat
          (filter (\<lambda>a. a \<in> set [numbered_address 5]) (map numbered_address [0..<1000]))"
    by simp
  from main have "\<exists>cs. for_tokenAddress (on_tokens numbered_store ?s) (map fst ?cat) [] = Inr cs
            \<and> set (concat (drop 1 ?slices)) \<subseteq> set cs"
    by (elim conjE)
  then obtain cs where
    "for_tokenAddress (on_tokens numbered_store ?s) (map fst ?cat) [] = Inr cs"
    and "set (concat (drop 1 ?slices)) \<subseteq> set cs"
    by blast
  then have e: "\<exists>cs. for_tokenAddress (on_tokens numbered_store ?s) (map fst ?cat) [] = Inr cs
            \<and> numbered_address 1000 \<in> set cs"
    by auto
  from wf c0 rej b w e show ?thesis by blast
qed

subsection \<open>The activity gate\<close>

text \<open>
  C3. A tick while the activity gate is closed (the view is not open, or the session is
  not unlocked) makes no call at all: the timer's call of \<open>detectNewTokens\<close> returns
  with an empty list of effects, hence with no oracle call and no store write, and
  without an error; a manual \<open>restartTokenDetection\<close> leaves the controller as it is
  and has no effect either.
\<close>

theorem closed_gate_no_effects:
  assumes "\<not> isOpen s \<or> \<not> truthy_bool (isUnlocked s)"
  shows "detectNewTokens env s = ([], None) \<and> restartTokenDetection env s = (s, [])"
  using assms by (auto simp add: detectNewTokens_def restartTokenDetection_def isActive_def)

text \<open>The example controller, locked: nothing happens, although a token is waiting.\<close>

theorem closed_gate_no_effects_witness:
  "\<not> truthy_bool (isUnlocked locked_controller)
   \<and> detectNewTokens (example_env 2 [''0xc3'']) locked_controller = ([], None)
   \<and> restartTokenDetection (example_env 2 [''0xc3'']) locked_controller
       = (locked_controller, [])"
  using closed_gate_no_effects[of locked_controller "example_env 2 [''0xc3'']"]
  by (simp add: locked_controller_def truthy_bool_def)

text \<open>
  C10. With the gate open, a run whose mirrored detection preference is not true, or
  whose network's chain id has token detection disabled, returns without an error and
  without any effect (no oracle call, no store write); it does not read the token
  list either: the result is the same whatever the token list is, even a missing one,
  whose reading would throw.
\<close>

theorem detection_disabled_no_effects:
  assumes "isActive s"
    and "\<not> truthy_bool (useTokenDetection s)
         \<or> (\<exists>net. priv_network s = Some net
               \<and> \<not> isTokenDetectionEnabledForNetwork env (chainId net))"
  shows "detectNewTokens env s = ([], None)
         \<and> detectNewTokens env (s\<lparr>priv_tokenList := tokenList\<rparr>) = ([], None)"
  using assms by (auto simp add: detectNewTokens_def isActive_def)

text \<open>The example controller on a chain other than the one detection is enabled for.\<close>

theorem detection_disabled_no_effects_witness:
  "isActive ((example_controller example_catalog [] [])
              \<lparr>priv_network := Some \<lparr>chainId = ''0x539'', provider = 7\<rparr>\<rparr>)
   \<and> \<not> isTokenDetectionEnabledForNetwork (example_env 2 [''0xc3'']) ''0x539''
   \<and> detectNewTokens (example_env 2 [''0xc3''])
        ((example_controller example_catalog [] [])
              \<lparr>priv_network := Some \<lparr>chainId = ''0x539'', provider = 7\<rparr>\<rparr>) = ([], None)
   \<and> detectNewTokens (example_env 2 [''0xc3''])
        ((example_controller example_catalog [] [])
              \<lparr>priv_network := Some \<lparr>chainId = ''0x539'', provider = 7\<rparr>,
                priv_tokenList := None\<rparr>) = ([], None)"
  using detection_disabled_no_effects
    [of "(example_controller example_catalog [] [])
              \<lparr>priv_network := Some \<lparr>chainId = ''0x539'', provider = 7\<rparr>\<rparr>"
        "example_env 2 [''0xc3'']" None]
  by (simp add: example_controller_def example_env_def isActive_def truthy_bool_def)

subsection \<open>Restarting\<close>

lemma restart_keeps_preferences:
  "selectedAddress (fst (restartTokenDetection env s)) = selectedAddress s"
  "useTokenDetection (fst (restartTokenDetection env s)) = useTokenDetection s"
  by (simp_all add: restartTokenDetection_def set_interval_def Let_def
      DEFAULT_INTERVAL_def MINUTE_def)

text \<open>
  C9. A notification of the preferences changes the mirror and restarts only when the
  pair it delivers differs from the mirrored pair; the same notification delivered
  again right after is then a no-op: it has no effect and leaves the controller as it
  is, so two identical notifications in a row run the pipeline at most once.
\<close>

theorem preference_change_restarts_once:
  "on_preferences env p s =
     (if selectedAddress s = state_selectedAddress p
         \<and> useTokenDetection s = state_useTokenDetection p
      then (s, [])
      else restartTokenDetection env
             (s\<lparr>selectedAddress := state_selectedAddress p,
                useTokenDetection := state_useTokenDetection p\<rparr>))
   \<and> on_preferences env p (fst (on_preferences env p s))
       = (fst (on_preferences env p s), [])"
proof -
  have a: "selectedAddress (fst (on_preferences env p s)) = state_selectedAddress p"
    by (simp add: on_preferences_def restart_keeps_preferences)
  have b: "useTokenDetection (fst (on_preferences env p s)) = state_useTokenDetection p"
    by (simp add: on_preferences_def restart_keeps_preferences)
  have "on_preferences env p (fst (on_preferences env p s))
       = (fst (on_preferences env p s), [])"
    unfolding on_preferences_def[of env p "fst (on_preferences env p s)"] using a b by simp
  moreover have "on_preferences env p s =
     (if selectedAddress s = state_selectedAddress p
         \<and> useTokenDetection s = state_useTokenDetection p
      then (s, [])
      else restartTokenDetection env
             (s\<lparr>selectedAddress := state_selectedAddress p,
                useTokenDetection := state_useTokenDetection p\<rparr>))"
    by (simp add: on_preferences_def)
  ultimately show ?thesis by simp
qed

text \<open>
  The account changes: the first notification runs the pipeline, the second one,
  with the same pair, does nothing.
\<close>

theorem preference_change_restarts_once_witness:
  "oracle_batches (snd (on_preferences (example_env 2 [])
       \<lparr>state_selectedAddress = Some ''0xacd'', state_useTokenDetection = Some True\<rparr>
       (example_controller example_catalog [''0xA1''] [''0xb2''])))
     = [[''0xc3''], []]
   \<and> on_preferences (example_env 2 [])
       \<lparr>state_selectedAddress = Some ''0xacd'', state_useTokenDetection = Some True\<rparr>
       (fst (on_preferences (example_env 2 [])
         \<lparr>state_selectedAddress = Some ''0xacd'', state_useTokenDetection = Some True\<rparr>
         (example_controller example_catalog [''0xA1''] [''0xb2''])))
     = (fst (on_preferences (example_env 2 [])
         \<lparr>state_selectedAddress = Some ''0xacd'', state_useTokenDetection = Some True\<rparr>
         (example_controller example_catalog [''0xA1''] [''0xb2''])), [])"
proof -
  have "oracle_batches (snd (on_preferences (example_env 2 [])
       \<lparr>state_selectedAddress = Some ''0xacd'', state_useTokenDetection = Some True\<rparr>
       (example_controller example_catalog [''0xA1''] [''0xb2''])))
     = [[''0xc3''], []]"
    by (simp add: on_preferences_def restartTokenDetection_def set_interval_def
        DEFAULT_INTERVAL_def MINUTE_def example_defs run_defs)
  then show ?thesis
    using conjunct2[OF preference_change_restarts_once[of "example_env 2 []"
        "\<lparr>state_selectedAddress = Some ''0xacd'', state_useTokenDetection = Some True\<rparr>"
        "example_controller example_catalog [''0xA1''] [''0xb2'']"]]
    by (rule conjI)
qed




subsection \<open>Construction\<close>

text \<open>
  C8. Construction does not check its collaborators. Whatever is missing, it arms the
  timer with the interval it is given (the default when none is given) unless that
  interval is zero, and it leaves the mirrors of a missing collaborator undefined.
\<close>

theorem constructor_arms_timer:
  "snd (constructor cfg) =
     (case config_interval cfg of
        None \<Rightarrow> [SetInterval DEFAULT_INTERVAL]
      | Some i \<Rightarrow> if i = 0 then [] else [SetInterval i])
   \<and> priv_handle (fst (constructor cfg)) =
     (case config_interval cfg of
        None \<Rightarrow> Some DEFAULT_INTERVAL
      | Some i \<Rightarrow> if i = 0 then None else Some i)
   \<and> (config_preferences cfg = None \<longrightarrow>
        selectedAddress (fst (constructor cfg)) = None
        \<and> useTokenDetection (fst (constructor cfg)) = None)
   \<and> (config_tokensController cfg = None \<longrightarrow>
        tokenAddresses (fst (constructor cfg)) = None
        \<and> hiddenTokens (fst (constructor cfg)) = None
        \<and> detectedTokens (fst (constructor cfg)) = None)"
  by (simp add: constructor_def set_interval_def Let_def DEFAULT_INTERVAL_def MINUTE_def
      split: option.splits)

text \<open>Only the token store is missing, and the interval is one second.\<close>

theorem constructor_arms_timer_witness:
  "config_tokensController (no_collaborators
       \<lparr>config_interval := Some 1000, config_assetsContractController := True\<rparr>) = None
   \<and> snd (constructor (no_collaborators
       \<lparr>config_interval := Some 1000, config_assetsContractController := True\<rparr>))
     = [SetInterval 1000]
   \<and> tokenAddresses (fst (constructor (no_collaborators
       \<lparr>config_interval := Some 1000, config_assetsContractController := True\<rparr>))) = None"
  using constructor_arms_timer[of "no_collaborators
       \<lparr>config_interval := Some 1000, config_assetsContractController := True\<rparr>"]
  by (simp add: no_collaborators_def)

text \<open>
  Every collaborator is missing: the constructor returns a controller all the same,
  and its timer is armed with the default interval.
\<close>

theorem constructor_counterexample:
  "snd (constructor no_collaborators) = [SetInterval DEFAULT_INTERVAL]
   \<and> priv_handle (fst (constructor no_collaborators)) = Some DEFAULT_INTERVAL"
  by (simp add: constructor_def no_collaborators_def set_interval_def Let_def
      DEFAULT_INTERVAL_def MINUTE_def)

end
